theory Spec2Isabelle
  imports Main "HOL-Library.Word"
begin

unbundle bit_operations_syntax

section \<open>minidb: an in-memory key/value store with one lock per key\<close>

text \<open>
  The theory embeds \<^verbatim>\<open>minidb/minidb.go\<close>. Every Go function keeps its name. Go strings
  are byte strings (\<open>string\<close>), the store \<^verbatim>\<open>map[string]*valueWr\<close> is a partial map
  from keys to entries (every key owns the only pointer to its entry, so no two keys
  alias), a \<^verbatim>\<open>sync.Mutex\<close> is the flag "locked", and everything a handler reads from
  outside the process (the request, the bytes of the entropy source) is an argument.
\<close>

subsection \<open>Constants\<close>

definition PathReservations :: string where
  "PathReservations = ''/reservations/''"

definition PathValues :: string where
  "PathValues = ''/values/''"

definition LockIdLength :: nat where
  "LockIdLength = 16"

definition StatusBadRequest :: nat where
  "StatusBadRequest = 400"

definition StatusUnauthorized :: nat where
  "StatusUnauthorized = 401"

definition StatusNotFound :: nat where
  "StatusNotFound = 404"

subsection \<open>Library functions the program calls\<close>

type_synonym byte = "8 word"

text \<open>
  \<^verbatim>\<open>strings.IndexByte(s, c)\<close>: the index of the first \<open>c\<close> in \<open>s\<close>, or \<open>-1\<close>.
\<close>

fun strings_IndexByte :: "string \<Rightarrow> char \<Rightarrow> int" where
  "strings_IndexByte [] c = -1"
| "strings_IndexByte (x # xs) c =
     (if x = c then 0
      else (let i = strings_IndexByte xs c in if i < 0 then -1 else i + 1))"

text \<open>
  \<^verbatim>\<open>strings.Split(s, sep)\<close> for a separator of one byte: the pieces of \<open>s\<close> between
  the separators, one more than there are separators (so never an empty list).
\<close>

fun strings_Split :: "string \<Rightarrow> char \<Rightarrow> string list" where
  "strings_Split [] sep = [[]]"
| "strings_Split (x # xs) sep =
     (if x = sep then [] # strings_Split xs sep
      else (case strings_Split xs sep of
              [] \<Rightarrow> [[x]]
            | p # ps \<Rightarrow> (x # p) # ps))"

text \<open>
  \<^verbatim>\<open>url.Values.Get(key)\<close>: the first value of the parameter, the empty string when the
  parameter is absent. The parsed query is the list of its \<open>(name, value)\<close> pairs in
  the order of the URL.
\<close>

definition url_Values_Get :: "(string \<times> string) list \<Rightarrow> string \<Rightarrow> string" where
  "url_Values_Get q k = (case map_of q k of None \<Rightarrow> [] | Some v \<Rightarrow> v)"

text \<open>
  \<^verbatim>\<open>hex.EncodeToString\<close>: two digits of \<^verbatim>\<open>hextable\<close> for every byte, the high nibble
  first.
\<close>

definition hextable :: string where
  "hextable = ''0123456789abcdef''"

fun hex_EncodeToString :: "byte list \<Rightarrow> string" where
  "hex_EncodeToString [] = []"
| "hex_EncodeToString (v # vs) =
     hextable ! unat (drop_bit 4 v) # hextable ! unat (v AND 0x0f) # hex_EncodeToString vs"

text \<open>
  \<^verbatim>\<open>crypto/rand.Read(buf)\<close> fills \<open>buf\<close> from the system's entropy source through
  \<^verbatim>\<open>io.ReadFull\<close>. The argument \<open>src\<close> is what the source is able to deliver to this
  call: the call copies as many of its bytes as fit, leaves the rest of \<open>buf\<close> as
  it was, and reports an error exactly when it delivered fewer bytes than \<open>buf\<close> holds.
  The result is the buffer after the call, the number of bytes read and the error flag.
\<close>

definition rand_Read :: "byte list \<Rightarrow> byte list \<Rightarrow> byte list \<times> nat \<times> bool" where
  "rand_Read src buf =
     (let n = min (length src) (length buf)
      in (take n src @ drop n buf, n, n < length buf))"

subsection \<open>Keys and lock ids\<close>

datatype error = ErrKeyMissing | ErrKeyInvalid

fun error_Error :: "error \<Rightarrow> string" where
  "error_Error ErrKeyMissing = ''Key is missing!''"
| "error_Error ErrKeyInvalid = ''Key must not contain '' @ [CHR 0x27, CHR ''/'', CHR 0x27] @ ''!''"

text \<open>\<^verbatim>\<open>checkKey\<close>: \<open>None\<close> is Go's \<^verbatim>\<open>nil\<close> error.\<close>

definition checkKey :: "string \<Rightarrow> error option" where
  "checkKey key =
     (if key = [] then Some ErrKeyMissing
      else if strings_IndexByte key (CHR ''/'') \<ge> 0 then Some ErrKeyInvalid
      else None)"

text \<open>
  \<^verbatim>\<open>genLockId\<close>: a zeroed buffer of \<^verbatim>\<open>LockIdLength\<close> bytes is handed to
  \<^verbatim>\<open>rand.Read\<close>; an error of the read is logged and nothing else, and the buffer is
  hex-encoded whatever it holds.
\<close>

definition genLockId :: "byte list \<Rightarrow> string" where
  "genLockId src =
     (let buf = replicate LockIdLength 0;
          (buf', n, err) = rand_Read src buf
      in hex_EncodeToString buf')"

subsection \<open>Entries, requests and responses\<close>

text \<open>
  \<^verbatim>\<open>valueWr\<close>: the value, the lock id (the empty string when there is none) and the
  mutex of one key; \<open>Mux\<close> is \<open>True\<close> while the mutex is locked.
\<close>

record valueWr =
  Value :: string
  LockId :: string
  Mux :: bool

type_synonym store = "string \<rightharpoonup> valueWr"

text \<open>
  What a handler reads of an \<^verbatim>\<open>http.Request\<close>: the method, \<^verbatim>\<open>URL.Path\<close>, the parsed
  query, and the outcome of \<^verbatim>\<open>ioutil.ReadAll(r.Body)\<close>: \<open>Inr content\<close>, or \<open>Inl e\<close>
  when the read fails with the error \<open>e\<close>.
\<close>

record request =
  Method :: string
  Path :: string
  Query :: "(string \<times> string) list"
  Body :: "string + string"

text \<open>
  What a handler writes: \<^verbatim>\<open>http.Error(w, msg, code)\<close>, \<^verbatim>\<open>w.WriteHeader(204)\<close>, or the
  JSON object of \<^verbatim>\<open>SendJSONResp\<close> (status 200), given as the list of its members.
\<close>

datatype response = HttpError string nat | NoContent | JSON "(string \<times> string) list"

text \<open>
  How a call of a handler ends: with a response; suspended in \<^verbatim>\<open>vw.Mux.Lock()\<close> on the
  entry of a key; with a run-time panic (an index out of range, which \<^verbatim>\<open>net/http\<close>
  recovers); or with the fatal error \<^verbatim>\<open>sync: unlock of unlocked mutex\<close>, which ends the
  process.
\<close>

datatype outcome = Done response | Blocked string | Panic | Fatal

definition http_NotFound :: response where
  "http_NotFound = HttpError ''404 page not found'' StatusNotFound"

subsection \<open>The methods of an entry\<close>

text \<open>
  \<^verbatim>\<open>valueWr.Lock\<close> as one worker sees it when no other worker runs in between: the
  release of the store mutex before and its re-acquisition after leave the store as it
  is, so what remains is \<^verbatim>\<open>vw.Mux.Lock()\<close>, which suspends the caller (\<open>None\<close>) while
  the mutex is locked, and the assignment of a new lock id. The steps of \<^verbatim>\<open>Lock\<close> one
  by one, store mutex included, are in the worker model below.
\<close>

definition valueWr_Lock :: "byte list \<Rightarrow> valueWr \<Rightarrow> valueWr option" where
  "valueWr_Lock src vw =
     (if Mux vw then None
      else Some ((vw\<lparr>Mux := True\<rparr>)\<lparr>LockId := genLockId src\<rparr>))"

text \<open>
  \<^verbatim>\<open>valueWr.Unlock\<close>: the lock id is cleared, then the mutex unlocked. Unlocking a
  mutex that is not locked is a fatal error of the Go run time: \<open>Inl\<close> holds the entry
  as it is at that moment.
\<close>

definition valueWr_Unlock :: "valueWr \<Rightarrow> valueWr + valueWr" where
  "valueWr_Unlock vw =
     (let vw1 = vw\<lparr>LockId := []\<rparr>
      in if Mux vw1 then Inr (vw1\<lparr>Mux := False\<rparr>) else Inl vw1)"

definition SendJSONResp :: "valueWr \<Rightarrow> bool \<Rightarrow> response" where
  "SendJSONResp vw sendValue =
     JSON ((''lock_id'', LockId vw) # (if sendValue then [(''value'', Value vw)] else []))"

text \<open>\<^verbatim>\<open>readBody\<close>: the new entry and the error it returns (\<open>None\<close> is \<^verbatim>\<open>nil\<close>).\<close>

definition readBody :: "valueWr \<Rightarrow> request \<Rightarrow> valueWr \<times> string option" where
  "readBody vw r =
     (case Body r of
        Inl e \<Rightarrow> (vw, Some e)
      | Inr content \<Rightarrow> (vw\<lparr>Value := content\<rparr>, None))"

subsection \<open>The handlers, one request at a time\<close>

text \<open>
  A handler maps the store before the call to its outcome and the store after it. The
  store mutex is free before and after every call and is left out here.
\<close>

definition reservationsHandler :: "byte list \<Rightarrow> request \<Rightarrow> store \<Rightarrow> outcome \<times> store" where
  "reservationsHandler src r st =
     (if Method r \<noteq> ''POST''
      then (Done (HttpError ''Bad request, POST method expected!'' StatusBadRequest), st)
      else if length (Path r) < length PathReservations then (Panic, st)
      else
        (let key = drop (length PathReservations) (Path r)
         in case st key of
              None \<Rightarrow> (Done http_NotFound, st)
            | Some vw \<Rightarrow>
                (case valueWr_Lock src vw of
                   None \<Rightarrow> (Blocked key, st)
                 | Some vw1 \<Rightarrow> (Done (SendJSONResp vw1 True), st(key \<mapsto> vw1)))))"

definition MsgMalformed :: string where
  "MsgMalformed =
     ''Bad request, missing lockId and/or release parameter (must be ''
       @ [CHR 0x27] @ ''true'' @ [CHR 0x27] @ '' or '' @ [CHR 0x27] @ ''false'' @ [CHR 0x27] @ '')!''"

text \<open>The case \<^verbatim>\<open>http.MethodPost\<close> of \<^verbatim>\<open>valuesHandler\<close>.\<close>

definition valuesPost :: "string list \<Rightarrow> string \<Rightarrow> request \<Rightarrow> store \<Rightarrow> outcome \<times> store" where
  "valuesPost parts key r st =
     (let release = url_Values_Get (Query r) ''release''
      in if length parts < 4 \<or> (release \<noteq> ''false'' \<and> release \<noteq> ''true'')
         then (Done (HttpError MsgMalformed StatusBadRequest), st)
         else
           (case st key of
              None \<Rightarrow> (Done http_NotFound, st)
            | Some vw \<Rightarrow>
                if LockId vw \<noteq> parts ! 3
                then (Done (HttpError ''401 Unauthorized'' StatusUnauthorized), st)
                else
                  (let (vw1, err) = readBody vw r
                   in if release = ''true''
                      then (case valueWr_Unlock vw1 of
                              Inl vw2 \<Rightarrow> (Fatal, st(key \<mapsto> vw2))
                            | Inr vw2 \<Rightarrow> (Done NoContent, st(key \<mapsto> vw2)))
                      else (Done NoContent, st(key \<mapsto> vw1)))))"

text \<open>The entry \<^verbatim>\<open>&valueWr{Mux: &sync.Mutex{}}\<close> of a key that is new.\<close>

definition new_valueWr :: valueWr where
  "new_valueWr = \<lparr>Value = [], LockId = [], Mux = False\<rparr>"

text \<open>The case \<^verbatim>\<open>http.MethodPut\<close> of \<^verbatim>\<open>valuesHandler\<close>.\<close>

definition valuesPut :: "byte list \<Rightarrow> string \<Rightarrow> request \<Rightarrow> store \<Rightarrow> outcome \<times> store" where
  "valuesPut src key r st =
     (let (vw, st1) = (case st key of
                         None \<Rightarrow> (new_valueWr, st(key \<mapsto> new_valueWr))
                       | Some vw \<Rightarrow> (vw, st))
      in case valueWr_Lock src vw of
           None \<Rightarrow> (Blocked key, st1)
         | Some vw1 \<Rightarrow>
             (let (vw2, err) = readBody vw1 r
              in (Done (SendJSONResp vw2 False), st1(key \<mapsto> vw2))))"

definition valuesHandler :: "byte list \<Rightarrow> request \<Rightarrow> store \<Rightarrow> outcome \<times> store" where
  "valuesHandler src r st =
     (let parts = strings_Split (Path r) (CHR ''/'')
      in if length parts < 3 then (Panic, st)
         else
           (let key = parts ! 2
            in case checkKey key of
                 Some err \<Rightarrow> (Done (HttpError (error_Error err) StatusBadRequest), st)
               | None \<Rightarrow>
                   if Method r = ''POST'' then valuesPost parts key r st
                   else if Method r = ''PUT'' then valuesPut src key r st
                   else (Done (HttpError ''Bad request, POST or PUT method expected!''
                                StatusBadRequest), st)))"

text \<open>
  The invariant of the data model: an entry has a lock id exactly when its mutex is
  locked.
\<close>

definition token_inv :: "store \<Rightarrow> bool" where
  "token_inv st = (\<forall>k vw. st k = Some vw \<longrightarrow> (LockId vw \<noteq> [] \<longleftrightarrow> Mux vw))"

subsection \<open>The handlers as concurrent workers\<close>

text \<open>
  \<^verbatim>\<open>net/http\<close> runs every request in a goroutine of its own. A worker is one call of a
  handler; its program counter names the statement it executes next. The statements of
  \<^verbatim>\<open>valueWr.Lock\<close>, which run without the store mutex, are one step each; the code a
  worker runs while it holds the store mutex is one step from the acquisition (or from
  the return of \<^verbatim>\<open>Lock\<close>) to the call of \<^verbatim>\<open>Lock\<close> or to the return of the handler.

  \<^item> \<open>Entry\<close>: the handler was called; next are its checks of the request and
    \<^verbatim>\<open>storeMux.Lock()\<close>.
  \<^item> \<open>Guarded\<close>: the worker locked the store mutex; next is the handler's body.
  \<^item> \<open>Lock_Unlock k\<close>: the body called \<^verbatim>\<open>vw.Lock()\<close> on the entry of \<open>k\<close>; next is
    \<^verbatim>\<open>storeMux.Unlock()\<close>.
  \<^item> \<open>Lock_Wait k\<close>: next is \<^verbatim>\<open>vw.Mux.Lock()\<close>.
  \<^item> \<open>Lock_Gen k\<close>: next is \<^verbatim>\<open>vw.LockId = genLockId()\<close>.
  \<^item> \<open>Lock_Return k\<close>: next is the deferred \<^verbatim>\<open>storeMux.Lock()\<close>.
  \<^item> \<open>Locked k\<close>: \<^verbatim>\<open>Lock\<close> returned; next is the rest of the body and the deferred
    \<^verbatim>\<open>storeMux.Unlock()\<close> of the handler.
  \<^item> \<open>Finished out\<close>: the handler returned.
\<close>

datatype handler = ReservationsHandler | ValuesHandler

datatype pc =
    Entry
  | Guarded
  | Lock_Unlock string
  | Lock_Wait string
  | Lock_Gen string
  | Lock_Return string
  | Locked string
  | Finished outcome

record worker =
  w_handler :: handler
  w_req :: request
  w_src :: "byte list"
  w_pc :: pc

text \<open>
  The process: the store, the store mutex, the workers, and whether a fatal error has
  ended it. A Go mutex does not know who locked it; \<open>storeMux\<close> records the index of
  the worker whose \<^verbatim>\<open>storeMux.Lock()\<close> succeeded last, so that "worker \<open>i\<close> holds the
  store mutex" can be said, and \<^verbatim>\<open>storeMux.Unlock()\<close> clears it whoever calls.
\<close>

record sys =
  store :: store
  storeMux :: "nat option"
  workers :: "worker list"
  crashed :: bool

definition set_pc :: "nat \<Rightarrow> pc \<Rightarrow> sys \<Rightarrow> sys" where
  "set_pc i p s = s\<lparr>workers := (workers s)[i := (workers s ! i)\<lparr>w_pc := p\<rparr>]\<rparr>"

text \<open>\<^verbatim>\<open>storeMux.Lock()\<close> by worker \<open>i\<close>: \<open>None\<close> while the mutex is locked.\<close>

definition storeMux_Lock :: "nat \<Rightarrow> sys \<Rightarrow> sys option" where
  "storeMux_Lock i s = (if storeMux s = None then Some (s\<lparr>storeMux := Some i\<rparr>) else None)"

text \<open>\<^verbatim>\<open>storeMux.Unlock()\<close>: a fatal error when the mutex is not locked.\<close>

definition storeMux_Unlock :: "sys \<Rightarrow> sys" where
  "storeMux_Unlock s =
     (if storeMux s = None then s\<lparr>crashed := True\<rparr> else s\<lparr>storeMux := None\<rparr>)"

text \<open>What a handler does before \<^verbatim>\<open>storeMux.Lock()\<close>: \<open>Some out\<close> when it returns there.\<close>

definition beforeGuard :: "handler \<Rightarrow> request \<Rightarrow> outcome option" where
  "beforeGuard h r =
     (case h of
        ReservationsHandler \<Rightarrow>
          if Method r \<noteq> ''POST''
          then Some (Done (HttpError ''Bad request, POST method expected!'' StatusBadRequest))
          else if length (Path r) < length PathReservations then Some Panic
          else None
      | ValuesHandler \<Rightarrow>
          (let parts = strings_Split (Path r) (CHR ''/'')
           in if length parts < 3 then Some Panic
              else (case checkKey (parts ! 2) of
                      Some err \<Rightarrow> Some (Done (HttpError (error_Error err) StatusBadRequest))
                    | None \<Rightarrow> None)))"

text \<open>
  The body of a handler under the store mutex, up to the call of \<^verbatim>\<open>vw.Lock()\<close> or to
  the return, where the deferred \<^verbatim>\<open>storeMux.Unlock()\<close> runs. A fatal error ends the
  process where it happens.
\<close>

definition guarded_step :: "nat \<Rightarrow> worker \<Rightarrow> sys \<Rightarrow> sys" where
  "guarded_step i w s =
     (let r = w_req w
      in case w_handler w of
           ReservationsHandler \<Rightarrow>
             (let key = drop (length PathReservations) (Path r)
              in case store s key of
                   None \<Rightarrow> set_pc i (Finished (Done http_NotFound)) (storeMux_Unlock s)
                 | Some vw \<Rightarrow> set_pc i (Lock_Unlock key) s)
         | ValuesHandler \<Rightarrow>
             (let parts = strings_Split (Path r) (CHR ''/'');
                  key = parts ! 2
              in if Method r = ''POST''
                 then (let (out, st1) = valuesPost parts key r (store s)
                       in if out = Fatal then s\<lparr>store := st1, crashed := True\<rparr>
                          else set_pc i (Finished out) (storeMux_Unlock (s\<lparr>store := st1\<rparr>)))
                 else if Method r = ''PUT''
                 then set_pc i (Lock_Unlock key)
                        (s\<lparr>store := (case store s key of
                                       None \<Rightarrow> (store s)(key \<mapsto> new_valueWr)
                                     | Some vw \<Rightarrow> store s)\<rparr>)
                 else set_pc i
                        (Finished (Done (HttpError ''Bad request, POST or PUT method expected!''
                                           StatusBadRequest)))
                        (storeMux_Unlock s)))"

text \<open>
  The rest of a handler after \<^verbatim>\<open>vw.Lock()\<close> returned. The worker holds the pointer
  \<^verbatim>\<open>vw\<close>; entries are never removed from the store, so the entry of \<open>k\<close> is there (the
  branch \<open>None\<close> stands for the nil dereference Go would raise otherwise).
\<close>

definition locked_step :: "nat \<Rightarrow> worker \<Rightarrow> string \<Rightarrow> sys \<Rightarrow> sys" where
  "locked_step i w k s =
     (case store s k of
        None \<Rightarrow> set_pc i (Finished Panic) (storeMux_Unlock s)
      | Some vw \<Rightarrow>
          (case w_handler w of
             ReservationsHandler \<Rightarrow>
               set_pc i (Finished (Done (SendJSONResp vw True))) (storeMux_Unlock s)
           | ValuesHandler \<Rightarrow>
               (let (vw1, err) = readBody vw (w_req w)
                in set_pc i (Finished (Done (SendJSONResp vw1 False)))
                     (storeMux_Unlock (s\<lparr>store := (store s)(k \<mapsto> vw1)\<rparr>)))))"

text \<open>
  One step of worker \<open>i\<close>. A worker that is suspended (in \<^verbatim>\<open>storeMux.Lock()\<close> or in
  \<^verbatim>\<open>vw.Mux.Lock()\<close>) or has finished leaves the process as it is, and so does every
  worker once the process has crashed.
\<close>

definition step :: "nat \<Rightarrow> sys \<Rightarrow> sys" where
  "step i s =
     (if crashed s \<or> length (workers s) \<le> i then s
      else
        (let w = workers s ! i
         in case w_pc w of
              Entry \<Rightarrow>
                (case beforeGuard (w_handler w) (w_req w) of
                   Some out \<Rightarrow> set_pc i (Finished out) s
                 | None \<Rightarrow>
                     (case storeMux_Lock i s of
                        None \<Rightarrow> s
                      | Some s1 \<Rightarrow> set_pc i Guarded s1))
            | Guarded \<Rightarrow> guarded_step i w s
            | Lock_Unlock k \<Rightarrow> set_pc i (Lock_Wait k) (storeMux_Unlock s)
            | Lock_Wait k \<Rightarrow>
                (case store s k of
                   None \<Rightarrow> set_pc i (Finished Panic) s
                 | Some vw \<Rightarrow>
                     if Mux vw then s
                     else set_pc i (Lock_Gen k) (s\<lparr>store := (store s)(k \<mapsto> vw\<lparr>Mux := True\<rparr>)\<rparr>))
            | Lock_Gen k \<Rightarrow>
                (case store s k of
                   None \<Rightarrow> set_pc i (Finished Panic) s
                 | Some vw \<Rightarrow>
                     set_pc i (Lock_Return k)
                       (s\<lparr>store := (store s)(k \<mapsto> vw\<lparr>LockId := genLockId (w_src w)\<rparr>)\<rparr>))
            | Lock_Return k \<Rightarrow>
                (case storeMux_Lock i s of
                   None \<Rightarrow> s
                 | Some s1 \<Rightarrow> set_pc i (Locked k) s1)
            | Locked k \<Rightarrow> locked_step i w k s
            | Finished out \<Rightarrow> s))"

text \<open>
  An execution is a schedule: the list of the workers that take a step, in order. The
  process starts with the empty store and the store mutex free; a request that arrives
  later is a worker that is scheduled later.
\<close>

fun run :: "nat list \<Rightarrow> sys \<Rightarrow> sys" where
  "run [] s = s"
| "run (i # sched) s = run sched (step i s)"

definition init :: "(handler \<times> request \<times> byte list) list \<Rightarrow> sys" where
  "init reqs =
     \<lparr>store = Map.empty, storeMux = None,
      workers = map (\<lambda>(h, r, src). \<lparr>w_handler = h, w_req = r, w_src = src, w_pc = Entry\<rparr>) reqs,
      crashed = False\<rparr>"

text \<open>The program counters at which a worker has locked the store mutex.\<close>

fun holds_guard :: "pc \<Rightarrow> bool" where
  "holds_guard Guarded = True"
| "holds_guard (Lock_Unlock k) = True"
| "holds_guard (Locked k) = True"
| "holds_guard p = False"

definition guard_inv :: "sys \<Rightarrow> bool" where
  "guard_inv s =
     (\<forall>i < length (workers s). holds_guard (w_pc (workers s ! i)) \<longleftrightarrow> storeMux s = Some i)"

text \<open>
  The key of the entry a worker is acquiring or has acquired, and the invariant that
  this entry is in the store.
\<close>

fun pc_key :: "pc \<Rightarrow> string option" where
  "pc_key (Lock_Unlock k) = Some k"
| "pc_key (Lock_Wait k) = Some k"
| "pc_key (Lock_Gen k) = Some k"
| "pc_key (Lock_Return k) = Some k"
| "pc_key (Locked k) = Some k"
| "pc_key p = None"

definition entry_inv :: "sys \<Rightarrow> bool" where
  "entry_inv s =
     (\<forall>i < length (workers s). \<forall>k. pc_key (w_pc (workers s ! i)) = Some k \<longrightarrow> store s k \<noteq> None)"

text \<open>
  A worker alone: the process with the store \<open>st\<close>, the store mutex free and one
  worker at the entry of its handler; \<open>serve\<close> is the handler of that worker in the
  section "one request at a time", and \<open>agrees\<close> compares the two.
\<close>

definition serve :: "handler \<Rightarrow> byte list \<Rightarrow> request \<Rightarrow> store \<Rightarrow> outcome \<times> store" where
  "serve h src r st =
     (case h of
        ReservationsHandler \<Rightarrow> reservationsHandler src r st
      | ValuesHandler \<Rightarrow> valuesHandler src r st)"

definition alone :: "handler \<Rightarrow> byte list \<Rightarrow> request \<Rightarrow> store \<Rightarrow> sys" where
  "alone h src r st =
     \<lparr>store = st, storeMux = None,
      workers = [\<lparr>w_handler = h, w_req = r, w_src = src, w_pc = Entry\<rparr>], crashed = False\<rparr>"

definition agrees :: "sys \<Rightarrow> outcome \<times> store \<Rightarrow> bool" where
  "agrees s res =
     (store s = snd res \<and>
      (case fst res of
         Blocked k \<Rightarrow> w_pc (workers s ! 0) = Lock_Wait k \<and> storeMux s = None \<and> \<not> crashed s
       | Fatal \<Rightarrow> crashed s
       | out \<Rightarrow> w_pc (workers s ! 0) = Finished out \<and> storeMux s = None \<and> \<not> crashed s))"

text \<open>
  Two requests for the execution of claim C5: \<^verbatim>\<open>PUT /values/foo\<close> with the body \<open>x\<close>
  and an entropy source that delivers 16 bytes, and \<^verbatim>\<open>POST /values/foo/?release=true\<close>
  with the body \<open>y\<close>, whose lock id piece is empty.
\<close>

definition race_requests :: "(handler \<times> request \<times> byte list) list" where
  "race_requests =
     [(ValuesHandler,
       \<lparr>Method = ''PUT'', Path = ''/values/foo'', Query = [], Body = Inr ''x''\<rparr>,
       [0x01, 0x02, 0x03, 0x04, 0x05, 0x06, 0x07, 0x08,
        0x09, 0x0a, 0x0b, 0x0c, 0x0d, 0x0e, 0x0f, 0x10]),
      (ValuesHandler,
       \<lparr>Method = ''POST'', Path = ''/values/foo/'', Query = [(''release'', ''true'')],
          Body = Inr ''y''\<rparr>,
       [])]"

section \<open>Properties of the library functions\<close>

lemma strings_IndexByte_ge_m1: "strings_IndexByte s c \<ge> -1"
  by (induction s) (auto simp: Let_def)

lemma strings_IndexByte_found: "strings_IndexByte s c \<ge> 0 \<longleftrightarrow> c \<in> set s"
proof (induction s)
  case Nil
  show ?case by simp
next
  case (Cons x xs)
  then show ?case by (auto simp: Let_def)
qed

lemma strings_Split_not_Nil: "strings_Split s sep \<noteq> []"
  by (induction s) (auto split: list.splits)

lemma strings_Split_no_sep: "p \<in> set (strings_Split s sep) \<Longrightarrow> sep \<notin> set p"
proof (induction s arbitrary: p)
  case Nil
  then show ?case by simp
next
  case (Cons x xs)
  show ?case
  proof (cases "x = sep")
    case True
    with Cons show ?thesis by auto
  next
    case False
    obtain q qs where q: "strings_Split xs sep = q # qs"
      using strings_Split_not_Nil [of xs sep] by (cases "strings_Split xs sep") auto
    from Cons.prems False q have "p = x # q \<or> p \<in> set qs" by auto
    then show ?thesis
    proof
      assume "p = x # q"
      moreover have "sep \<notin> set q" using Cons.IH [of q] q by simp
      ultimately show ?thesis using False by auto
    next
      assume "p \<in> set qs"
      then show ?thesis using Cons.IH [of p] q by simp
    qed
  qed
qed




lemma length_hex_EncodeToString: "length (hex_EncodeToString bs) = 2 * length bs"
  by (induction bs) simp_all


lemma length_rand_Read: "length (fst (rand_Read src buf)) = length buf"
  by (simp add: rand_Read_def Let_def min_def)

lemma genLockId_eq:
  "genLockId src = hex_EncodeToString (fst (rand_Read src (replicate LockIdLength 0)))"
  by (simp add: genLockId_def Let_def split: prod.splits)

lemma length_genLockId: "length (genLockId src) = 32"
  by (simp add: genLockId_eq length_hex_EncodeToString length_rand_Read LockIdLength_def)

lemma genLockId_not_empty: "genLockId src \<noteq> []"
  using length_genLockId [of src] by auto


section \<open>One request at a time\<close>

lemmas handler_defs =
  valuesHandler_def valuesPost_def valuesPut_def reservationsHandler_def
  valueWr_Lock_def valueWr_Unlock_def readBody_def SendJSONResp_def new_valueWr_def
  url_Values_Get_def checkKey_def Let_def

lemma hex_zero: "hex_EncodeToString (replicate n 0) = replicate (2 * n) (CHR ''0'')"
  by (induction n) (simp_all add: hextable_def)

text \<open>The lock id when the entropy source delivers nothing: 32 zeros.\<close>

lemma genLockId_no_entropy: "genLockId [] = ''00000000000000000000000000000000''"
proof -
  have "genLockId [] = replicate 32 (CHR ''0'')"
    by (simp add: genLockId_def rand_Read_def Let_def LockIdLength_def hex_zero)
  then show ?thesis by (simp add: eval_nat_numeral)
qed

lemma checkKey_None: "checkKey key = None \<longleftrightarrow> key \<noteq> [] \<and> CHR ''/'' \<notin> set key"
  by (simp add: checkKey_def strings_IndexByte_found)

lemma checkKey_part:
  "p \<in> set (strings_Split s (CHR ''/'')) \<Longrightarrow> checkKey p \<noteq> Some ErrKeyInvalid"
  using strings_Split_no_sep [of p s "CHR ''/''"]
  by (simp add: checkKey_def strings_IndexByte_found)

subsection \<open>Keys\<close>

text \<open>
  C9. In \<^verbatim>\<open>valuesHandler\<close> the key is the third piece of the path split at \<open>/\<close> and the
  lock id the fourth. A piece holds no \<open>/\<close>, so \<^verbatim>\<open>checkKey\<close> never answers
  \<^verbatim>\<open>ErrKeyInvalid\<close> there and the handler never responds with it; the path
  \<^verbatim>\<open>/values/a/b\<close> is an operation on the key \<open>a\<close> with the lock id \<open>b\<close>.
\<close>

theorem C9_values_key_is_third_segment:
  "fst (valuesHandler src r st) \<noteq> Done (HttpError (error_Error ErrKeyInvalid) StatusBadRequest)
   \<and> (3 \<le> length (strings_Split (Path r) (CHR ''/'')) \<longrightarrow>
        CHR ''/'' \<notin> set (strings_Split (Path r) (CHR ''/'') ! 2)
        \<and> checkKey (strings_Split (Path r) (CHR ''/'') ! 2) \<noteq> Some ErrKeyInvalid)
   \<and> (Path r = ''/values/a/b'' \<longrightarrow>
        strings_Split (Path r) (CHR ''/'') = [[], ''values'', ''a'', ''b'']
        \<and> (Method r = ''PUT'' \<longrightarrow> valuesHandler src r st = valuesPut src ''a'' r st)
        \<and> (Method r = ''POST'' \<longrightarrow>
             valuesHandler src r st = valuesPost [[], ''values'', ''a'', ''b''] ''a'' r st))"
proof (intro conjI impI)
  let ?parts = "strings_Split (Path r) (CHR ''/'')"
  show "fst (valuesHandler src r st)
          \<noteq> Done (HttpError (error_Error ErrKeyInvalid) StatusBadRequest)"
  proof (cases "length ?parts < 3")
    case True
    then show ?thesis by (simp add: valuesHandler_def Let_def)
  next
    case False
    then have "?parts ! 2 \<in> set ?parts" by simp
    then have nk: "checkKey (?parts ! 2) \<noteq> Some ErrKeyInvalid" by (rule checkKey_part)
    show ?thesis
    proof (cases "checkKey (?parts ! 2)")
      case None
      with False show ?thesis
        by (auto simp: valuesHandler_def valuesPost_def valuesPut_def Let_def MsgMalformed_def
              http_NotFound_def StatusBadRequest_def StatusNotFound_def StatusUnauthorized_def
              SendJSONResp_def
            split: option.splits prod.splits sum.splits)
    next
      case (Some e)
      with nk have "e = ErrKeyMissing" by (cases e) auto
      with Some False show ?thesis
        by (simp add: valuesHandler_def Let_def)
    qed
  qed
next
  let ?parts = "strings_Split (Path r) (CHR ''/'')"
  assume "3 \<le> length ?parts"
  then have m: "?parts ! 2 \<in> set ?parts" by simp
  from m show "CHR ''/'' \<notin> set (?parts ! 2)" by (rule strings_Split_no_sep)
  from m show "checkKey (?parts ! 2) \<noteq> Some ErrKeyInvalid" by (rule checkKey_part)
next
  assume "Path r = ''/values/a/b''"
  then show "strings_Split (Path r) (CHR ''/'') = [[], ''values'', ''a'', ''b'']" by simp
next
  assume "Path r = ''/values/a/b''" "Method r = ''PUT''"
  then show "valuesHandler src r st = valuesPut src ''a'' r st"
    by (simp add: valuesHandler_def checkKey_def Let_def)
next
  assume "Path r = ''/values/a/b''" "Method r = ''POST''"
  then show "valuesHandler src r st = valuesPost [[], ''values'', ''a'', ''b''] ''a'' r st"
    by (simp add: valuesHandler_def checkKey_def Let_def)
qed

text \<open>
  The theorem at \<^verbatim>\<open>PUT /values/a/b\<close> on the empty store: the key \<open>a\<close> is created and
  locked.
\<close>

theorem C9_values_key_is_third_segment_witness:
  "strings_Split ''/values/a/b'' (CHR ''/'') = [[], ''values'', ''a'', ''b'']
   \<and> valuesHandler []
       \<lparr>Method = ''PUT'', Path = ''/values/a/b'', Query = [], Body = Inr ''v''\<rparr> Map.empty
     = (Done (JSON [(''lock_id'', ''00000000000000000000000000000000'')]),
        [''a'' \<mapsto> \<lparr>Value = ''v'', LockId = ''00000000000000000000000000000000'',
                   Mux = True\<rparr>])
   \<and> fst (valuesHandler []
       \<lparr>Method = ''PUT'', Path = ''/values/a/b'', Query = [], Body = Inr ''v''\<rparr> Map.empty)
     \<noteq> Done (HttpError (error_Error ErrKeyInvalid) StatusBadRequest)"
  using C9_values_key_is_third_segment
    [of "[]" "\<lparr>Method = ''PUT'', Path = ''/values/a/b'', Query = [], Body = Inr ''v''\<rparr>"
        Map.empty]
  by (simp add: valuesPut_def valueWr_Lock_def readBody_def SendJSONResp_def new_valueWr_def
      genLockId_no_entropy)

text \<open>
  C3, as the claim states it, fails: \<^verbatim>\<open>reservationsHandler\<close> does not call
  \<^verbatim>\<open>checkKey\<close>, it looks the empty key and the key \<open>a/b\<close> up in the store and answers
  404; and \<^verbatim>\<open>PUT /values/a/b\<close> is not rejected, it creates the key \<open>a\<close>.
\<close>

theorem C3_key_not_validated_counterexample:
  "reservationsHandler []
     \<lparr>Method = ''POST'', Path = ''/reservations/'', Query = [], Body = Inr []\<rparr> Map.empty
   = (Done http_NotFound, Map.empty)
   \<and> Done http_NotFound \<noteq> Done (HttpError (error_Error ErrKeyMissing) StatusBadRequest)
   \<and> reservationsHandler []
     \<lparr>Method = ''POST'', Path = ''/reservations/a/b'', Query = [], Body = Inr []\<rparr> Map.empty
   = (Done http_NotFound, Map.empty)
   \<and> Done http_NotFound \<noteq> Done (HttpError (error_Error ErrKeyInvalid) StatusBadRequest)
   \<and> valuesHandler []
     \<lparr>Method = ''PUT'', Path = ''/values/a/b'', Query = [], Body = Inr ''v''\<rparr> Map.empty
   = (Done (JSON [(''lock_id'', ''00000000000000000000000000000000'')]),
      [''a'' \<mapsto> \<lparr>Value = ''v'', LockId = ''00000000000000000000000000000000'', Mux = True\<rparr>])"
  by (simp add: handler_defs genLockId_no_entropy PathReservations_def http_NotFound_def
      StatusNotFound_def StatusBadRequest_def)

text \<open>
  C3, amended. \<^verbatim>\<open>checkKey\<close> answers \<^verbatim>\<open>ErrKeyMissing\<close> for the empty key,
  \<^verbatim>\<open>ErrKeyInvalid\<close> for a key that holds \<open>/\<close> and \<^verbatim>\<open>nil\<close> for every other key. The
  values endpoints apply it to the third piece of the path before they touch the store:
  when that piece is empty the response is 400 with the message of \<^verbatim>\<open>ErrKeyMissing\<close>,
  whatever the store holds, and the store is left as it is.
\<close>

theorem C3_checkKey_on_values_key:
  "checkKey [] = Some ErrKeyMissing
   \<and> (key \<noteq> [] \<and> CHR ''/'' \<in> set key \<longrightarrow> checkKey key = Some ErrKeyInvalid)
   \<and> (key \<noteq> [] \<and> CHR ''/'' \<notin> set key \<longrightarrow> checkKey key = None)
   \<and> (3 \<le> length (strings_Split (Path r) (CHR ''/''))
        \<and> strings_Split (Path r) (CHR ''/'') ! 2 = [] \<longrightarrow>
        (\<forall>st. valuesHandler src r st
               = (Done (HttpError (error_Error ErrKeyMissing) StatusBadRequest), st)))"
  by (auto simp: checkKey_def strings_IndexByte_found valuesHandler_def Let_def)

theorem C3_checkKey_on_values_key_witness:
  "checkKey ''a/b'' = Some ErrKeyInvalid
   \<and> valuesHandler []
       \<lparr>Method = ''PUT'', Path = ''/values/'', Query = [], Body = Inr ''v''\<rparr>
       [''a'' \<mapsto> \<lparr>Value = ''v'', LockId = [], Mux = False\<rparr>]
     = (Done (HttpError ''Key is missing!'' StatusBadRequest),
        [''a'' \<mapsto> \<lparr>Value = ''v'', LockId = [], Mux = False\<rparr>])"
  using C3_checkKey_on_values_key
    [of "''a/b''" "\<lparr>Method = ''PUT'', Path = ''/values/'', Query = [], Body = Inr ''v''\<rparr>" "[]"]
  by simp

subsection \<open>The authorized update\<close>

text \<open>
  C2, as the claim states it, fails: without the parameter \<^verbatim>\<open>release\<close> a request that
  presents the lock id of the entry is answered 400, and the value is not written.
\<close>

theorem C2_release_absent_counterexample:
  "valuesHandler []
     \<lparr>Method = ''POST'', Path = ''/values/foo/00000000000000000000000000000000'',
        Query = [], Body = Inr ''baz''\<rparr>
     [''foo'' \<mapsto> \<lparr>Value = ''bar'', LockId = ''00000000000000000000000000000000'',
                  Mux = True\<rparr>]
   = (Done (HttpError MsgMalformed StatusBadRequest),
      [''foo'' \<mapsto> \<lparr>Value = ''bar'', LockId = ''00000000000000000000000000000000'',
                   Mux = True\<rparr>])"
  by (simp add: handler_defs)

text \<open>
  C2, amended. The parameter \<^verbatim>\<open>release\<close> is mandatory. On a key that passes
  \<^verbatim>\<open>checkKey\<close>, the authorized update fails as a malformed request (400) exactly when
  the path has no lock id piece or \<^verbatim>\<open>release\<close> is neither \<^verbatim>\<open>true\<close> nor \<^verbatim>\<open>false\<close>,
  which includes its absence; the store is then left as it is. With \<^verbatim>\<open>release=false\<close>,
  the lock id of the entry and a body that can be read, the update succeeds (204): it
  writes the value and does not release.
\<close>

theorem C2_release_mandatory:
  assumes "Method r = ''POST''"
    and "parts = strings_Split (Path r) (CHR ''/'')"
    and "3 \<le> length parts"
    and "checkKey (parts ! 2) = None"
    and "release = url_Values_Get (Query r) ''release''"
  shows "(fst (valuesHandler src r st) = Done (HttpError MsgMalformed StatusBadRequest)
           \<longleftrightarrow> length parts < 4 \<or> (release \<noteq> ''true'' \<and> release \<noteq> ''false''))
         \<and> (fst (valuesHandler src r st) = Done (HttpError MsgMalformed StatusBadRequest)
              \<longrightarrow> snd (valuesHandler src r st) = st)
         \<and> (map_of (Query r) ''release'' = None \<longrightarrow>
              valuesHandler src r st = (Done (HttpError MsgMalformed StatusBadRequest), st))
         \<and> (4 \<le> length parts \<and> release = ''false'' \<and> st (parts ! 2) = Some vw
              \<and> LockId vw = parts ! 3 \<and> Body r = Inr content \<longrightarrow>
              valuesHandler src r st
                = (Done NoContent, st(parts ! 2 \<mapsto> vw\<lparr>Value := content\<rparr>)))"
proof -
  have h: "valuesHandler src r st = valuesPost parts (parts ! 2) r st"
    using assms by (simp add: valuesHandler_def Let_def)
  show ?thesis
    unfolding h using assms(2-5)
    by (auto simp: valuesPost_def valueWr_Unlock_def readBody_def Let_def
          http_NotFound_def StatusBadRequest_def StatusNotFound_def StatusUnauthorized_def
          url_Values_Get_def
        split: option.splits sum.splits)
qed

text \<open>
  The theorem at \<^verbatim>\<open>POST /values/foo/00000000000000000000000000000000?release=false\<close>
  on the entry that holds this lock id.
\<close>

theorem C2_release_mandatory_witness:
  "strings_Split ''/values/foo/00000000000000000000000000000000'' (CHR ''/'')
     = [[], ''values'', ''foo'', ''00000000000000000000000000000000'']
   \<and> checkKey ''foo'' = None
   \<and> valuesHandler []
       \<lparr>Method = ''POST'', Path = ''/values/foo/00000000000000000000000000000000'',
          Query = [(''release'', ''false'')], Body = Inr ''baz''\<rparr>
       [''foo'' \<mapsto> \<lparr>Value = ''bar'', LockId = ''00000000000000000000000000000000'',
                    Mux = True\<rparr>]
     = (Done NoContent,
        [''foo'' \<mapsto> \<lparr>Value = ''baz'', LockId = ''00000000000000000000000000000000'',
                     Mux = True\<rparr>])"
proof -
  let ?r = "\<lparr>Method = ''POST'', Path = ''/values/foo/00000000000000000000000000000000'',
             Query = [(''release'', ''false'')], Body = Inr ''baz''\<rparr>"
  let ?parts = "[[], ''values'', ''foo'', ''00000000000000000000000000000000'']"
  let ?vw = "\<lparr>Value = ''bar'', LockId = ''00000000000000000000000000000000'', Mux = True\<rparr>"
  have a1: "Method ?r = ''POST''" by simp
  have a2: "?parts = strings_Split (Path ?r) (CHR ''/'')" by simp
  have a3: "3 \<le> length ?parts" by simp
  have a4: "checkKey (?parts ! 2) = None" by (simp add: checkKey_def)
  have a5: "''false'' = url_Values_Get (Query ?r) ''release''" by (simp add: url_Values_Get_def)
  from C2_release_mandatory [OF a1 a2 a3 a4 a5, of "[]" "[''foo'' \<mapsto> ?vw]" ?vw "''baz''"] a4
  show ?thesis by simp
qed

text \<open>
  C6. An authorized update that is answered with an error (the malformed request and
  the key errors with 400, the unknown key with 404, the lock id that does not match
  with 401) leaves the store exactly as it was: no entry is created, and no value, lock
  id or mutex changes.
\<close>

theorem C6_failed_update_leaves_store:
  assumes "Method r = ''POST''"
    and "valuesHandler src r st = (Done (HttpError msg code), st')"
  shows "st' = st"
  using assms
  by (auto simp: valuesHandler_def valuesPost_def valueWr_Unlock_def readBody_def Let_def
      split: if_splits option.splits sum.splits)

text \<open>
  The theorem at three requests on a locked entry: a lock id that does not match (401),
  \<^verbatim>\<open>release=maybe\<close> (400), and a key that does not exist (404).
\<close>

theorem C6_failed_update_leaves_store_witness:
  "valuesHandler []
     \<lparr>Method = ''POST'', Path = ''/values/foo/wrong'', Query = [(''release'', ''true'')],
        Body = Inr ''baz''\<rparr>
     [''foo'' \<mapsto> \<lparr>Value = ''bar'', LockId = ''00000000000000000000000000000000'',
                  Mux = True\<rparr>]
   = (Done (HttpError ''401 Unauthorized'' StatusUnauthorized),
      [''foo'' \<mapsto> \<lparr>Value = ''bar'', LockId = ''00000000000000000000000000000000'',
                   Mux = True\<rparr>])
   \<and> valuesHandler []
     \<lparr>Method = ''POST'', Path = ''/values/foo/00000000000000000000000000000000'',
        Query = [(''release'', ''maybe'')], Body = Inr ''baz''\<rparr>
     [''foo'' \<mapsto> \<lparr>Value = ''bar'', LockId = ''00000000000000000000000000000000'',
                  Mux = True\<rparr>]
   = (Done (HttpError MsgMalformed StatusBadRequest),
      [''foo'' \<mapsto> \<lparr>Value = ''bar'', LockId = ''00000000000000000000000000000000'',
                   Mux = True\<rparr>])
   \<and> valuesHandler []
     \<lparr>Method = ''POST'', Path = ''/values/ghost/00000000000000000000000000000000'',
        Query = [(''release'', ''true'')], Body = Inr ''baz''\<rparr>
     [''foo'' \<mapsto> \<lparr>Value = ''bar'', LockId = ''00000000000000000000000000000000'',
                  Mux = True\<rparr>]
   = (Done http_NotFound,
      [''foo'' \<mapsto> \<lparr>Value = ''bar'', LockId = ''00000000000000000000000000000000'',
                   Mux = True\<rparr>])"
proof -
  let ?st = "[''foo'' \<mapsto> \<lparr>Value = ''bar'', LockId = ''00000000000000000000000000000000'',
                          Mux = True\<rparr>]"
  let ?r1 = "\<lparr>Method = ''POST'', Path = ''/values/foo/wrong'',
              Query = [(''release'', ''true'')], Body = Inr ''baz''\<rparr>"
  let ?r2 = "\<lparr>Method = ''POST'', Path = ''/values/foo/00000000000000000000000000000000'',
              Query = [(''release'', ''maybe'')], Body = Inr ''baz''\<rparr>"
  let ?r3 = "\<lparr>Method = ''POST'', Path = ''/values/ghost/00000000000000000000000000000000'',
              Query = [(''release'', ''true'')], Body = Inr ''baz''\<rparr>"
  have o1: "fst (valuesHandler [] ?r1 ?st) = Done (HttpError ''401 Unauthorized'' StatusUnauthorized)"
    by (simp add: handler_defs)
  have o2: "fst (valuesHandler [] ?r2 ?st) = Done (HttpError MsgMalformed StatusBadRequest)"
    by (simp add: handler_defs)
  have o3: "fst (valuesHandler [] ?r3 ?st) = Done (HttpError ''404 page not found'' StatusNotFound)"
    by (simp add: handler_defs http_NotFound_def)
  have e1: "valuesHandler [] ?r1 ?st
      = (Done (HttpError ''401 Unauthorized'' StatusUnauthorized), snd (valuesHandler [] ?r1 ?st))"
    using o1 by (simp add: prod_eq_iff)
  have e2: "valuesHandler [] ?r2 ?st
      = (Done (HttpError MsgMalformed StatusBadRequest), snd (valuesHandler [] ?r2 ?st))"
    using o2 by (simp add: prod_eq_iff)
  have e3: "valuesHandler [] ?r3 ?st
      = (Done (HttpError ''404 page not found'' StatusNotFound), snd (valuesHandler [] ?r3 ?st))"
    using o3 by (simp add: prod_eq_iff)
  have m1: "Method ?r1 = ''POST''" and m2: "Method ?r2 = ''POST''" and m3: "Method ?r3 = ''POST''"
    by simp_all
  have "snd (valuesHandler [] ?r1 ?st) = ?st"
    by (rule C6_failed_update_leaves_store [OF m1 e1])
  moreover have "snd (valuesHandler [] ?r2 ?st) = ?st"
    by (rule C6_failed_update_leaves_store [OF m2 e2])
  moreover have "snd (valuesHandler [] ?r3 ?st) = ?st"
    by (rule C6_failed_update_leaves_store [OF m3 e3])
  ultimately show ?thesis
    using o1 o2 o3 by (simp add: prod_eq_iff http_NotFound_def)
qed

text \<open>
  What the handler does reject: a lock id that differs from the lock id of the entry,
  whether the entry is locked or not, is answered 401 and nothing is written.
\<close>

lemma valuesPost_unauthorized:
  assumes "4 \<le> length parts"
    and "url_Values_Get (Query r) ''release'' = ''true''
         \<or> url_Values_Get (Query r) ''release'' = ''false''"
    and "st key = Some vw" and "LockId vw \<noteq> parts ! 3"
  shows "valuesPost parts key r st
           = (Done (HttpError ''401 Unauthorized'' StatusUnauthorized), st)"
  using assms by (auto simp: valuesPost_def Let_def)

text \<open>
  C1, the claim at the input where the code departs from it. The key \<open>foo\<close> is created
  (the entropy source delivers nothing, so its lock id is 32 zeros) and released; the
  entry is then unlocked and its lock id is the empty string. \<^verbatim>\<open>POST /values/foo/\<close>
  presents the empty lock id: it equals the lock id of the entry, so with
  \<^verbatim>\<open>release=false\<close> the update is accepted (204) and writes the value of the unlocked
  entry, and with \<^verbatim>\<open>release=true\<close> the handler unlocks a mutex that is not locked,
  which is fatal to the process.
\<close>

theorem C1_empty_lock_id_accepted_while_unlocked:
  "valuesHandler []
     \<lparr>Method = ''PUT'', Path = ''/values/foo'', Query = [], Body = Inr ''bar''\<rparr> Map.empty
   = (Done (JSON [(''lock_id'', ''00000000000000000000000000000000'')]),
      [''foo'' \<mapsto> \<lparr>Value = ''bar'', LockId = ''00000000000000000000000000000000'',
                   Mux = True\<rparr>])
   \<and> valuesHandler []
     \<lparr>Method = ''POST'', Path = ''/values/foo/00000000000000000000000000000000'',
        Query = [(''release'', ''true'')], Body = Inr ''bar''\<rparr>
     [''foo'' \<mapsto> \<lparr>Value = ''bar'', LockId = ''00000000000000000000000000000000'',
                  Mux = True\<rparr>]
   = (Done NoContent, [''foo'' \<mapsto> \<lparr>Value = ''bar'', LockId = [], Mux = False\<rparr>])
   \<and> valuesHandler []
     \<lparr>Method = ''POST'', Path = ''/values/foo/'', Query = [(''release'', ''false'')],
        Body = Inr ''baz''\<rparr>
     [''foo'' \<mapsto> \<lparr>Value = ''bar'', LockId = [], Mux = False\<rparr>]
   = (Done NoContent, [''foo'' \<mapsto> \<lparr>Value = ''baz'', LockId = [], Mux = False\<rparr>])
   \<and> valuesHandler []
     \<lparr>Method = ''POST'', Path = ''/values/foo/'', Query = [(''release'', ''true'')],
        Body = Inr ''baz''\<rparr>
     [''foo'' \<mapsto> \<lparr>Value = ''bar'', LockId = [], Mux = False\<rparr>]
   = (Fatal, [''foo'' \<mapsto> \<lparr>Value = ''baz'', LockId = [], Mux = False\<rparr>])"
  by (simp add: handler_defs genLockId_no_entropy)

subsection \<open>Failures inside the process\<close>




text \<open>
  C7, as the claim states it, fails: when reading the body fails, create-or-update
  still answers 200 with a lock id (the value of the new entry stays empty), and the
  authorized update still answers 204 and releases (the value stays as it was).
\<close>

theorem C7_read_error_counterexample:
  "valuesHandler []
     \<lparr>Method = ''PUT'', Path = ''/values/foo'', Query = [], Body = Inl ''unexpected EOF''\<rparr>
     Map.empty
   = (Done (JSON [(''lock_id'', ''00000000000000000000000000000000'')]),
      [''foo'' \<mapsto> \<lparr>Value = [], LockId = ''00000000000000000000000000000000'', Mux = True\<rparr>])
   \<and> valuesHandler []
     \<lparr>Method = ''POST'', Path = ''/values/foo/00000000000000000000000000000000'',
        Query = [(''release'', ''true'')], Body = Inl ''unexpected EOF''\<rparr>
     [''foo'' \<mapsto> \<lparr>Value = ''bar'', LockId = ''00000000000000000000000000000000'',
                  Mux = True\<rparr>]
   = (Done NoContent, [''foo'' \<mapsto> \<lparr>Value = ''bar'', LockId = [], Mux = False\<rparr>])"
  by (simp add: handler_defs genLockId_no_entropy)

text \<open>
  C7, amended. A failure while reading the supplied bytes is not reported to the
  caller: \<^verbatim>\<open>readBody\<close> returns the error and leaves the entry, both handlers drop the
  error, so the outcome of a request whose body cannot be read is the outcome of the
  same request with a body that can (a success included), and no value in the store
  changes.
\<close>

theorem C7_read_error_is_dropped:
  "readBody vw (r\<lparr>Body := Inl e\<rparr>) = (vw, Some e)
   \<and> fst (valuesHandler src (r\<lparr>Body := Inl e\<rparr>) st)
     = fst (valuesHandler src (r\<lparr>Body := Inr content\<rparr>) st)
   \<and> fst (reservationsHandler src (r\<lparr>Body := Inl e\<rparr>) st)
     = fst (reservationsHandler src (r\<lparr>Body := Inr content\<rparr>) st)
   \<and> (\<forall>k v v'. st k = Some v
         \<and> snd (valuesHandler src (r\<lparr>Body := Inl e\<rparr>) st) k = Some v'
         \<longrightarrow> Value v' = Value v)"
  by (auto simp: handler_defs StatusBadRequest_def http_NotFound_def StatusNotFound_def
       StatusUnauthorized_def
      split: if_splits option.splits sum.splits)

text \<open>
  The theorem at an authorized update with \<^verbatim>\<open>release=false\<close> whose body cannot be
  read: 204, and the entry keeps its value.
\<close>

theorem C7_read_error_is_dropped_witness:
  "fst (valuesHandler []
     \<lparr>Method = ''POST'', Path = ''/values/foo/00000000000000000000000000000000'',
        Query = [(''release'', ''false'')], Body = Inl ''unexpected EOF''\<rparr>
     [''foo'' \<mapsto> \<lparr>Value = ''bar'', LockId = ''00000000000000000000000000000000'',
                  Mux = True\<rparr>])
   = Done NoContent
   \<and> snd (valuesHandler []
     \<lparr>Method = ''POST'', Path = ''/values/foo/00000000000000000000000000000000'',
        Query = [(''release'', ''false'')], Body = Inl ''unexpected EOF''\<rparr>
     [''foo'' \<mapsto> \<lparr>Value = ''bar'', LockId = ''00000000000000000000000000000000'',
                  Mux = True\<rparr>]) ''foo''
   = Some \<lparr>Value = ''bar'', LockId = ''00000000000000000000000000000000'', Mux = True\<rparr>"
proof -
  let ?r = "\<lparr>Method = ''POST'', Path = ''/values/foo/00000000000000000000000000000000'',
             Query = [(''release'', ''false'')], Body = Inr ''baz''\<rparr>"
  let ?st = "[''foo'' \<mapsto> \<lparr>Value = ''bar'', LockId = ''00000000000000000000000000000000'',
                          Mux = True\<rparr>]"
  have ok: "fst (valuesHandler [] (?r\<lparr>Body := Inr ''baz''\<rparr>) ?st) = Done NoContent"
    by (simp add: handler_defs)
  have "fst (valuesHandler [] (?r\<lparr>Body := Inl ''unexpected EOF''\<rparr>) ?st) = Done NoContent"
    using C7_read_error_is_dropped
      [where r = ?r and e = "''unexpected EOF''" and src = "[]" and st = ?st
         and content = "''baz''"] ok
    by simp
  moreover have "snd (valuesHandler [] (?r\<lparr>Body := Inl ''unexpected EOF''\<rparr>) ?st) ''foo''
      = Some \<lparr>Value = ''bar'', LockId = ''00000000000000000000000000000000'', Mux = True\<rparr>"
    by (simp add: handler_defs)
  ultimately show ?thesis by simp
qed

subsection \<open>Lock ids and mutexes, one request at a time\<close>

text \<open>
  When the handlers run one after the other, each keeps the invariant \<open>token_inv\<close>:
  \<^verbatim>\<open>Lock\<close> stores a lock id that is not empty, \<^verbatim>\<open>Unlock\<close> clears it, a new entry has
  neither a lock id nor a locked mutex.
\<close>

lemma token_inv_upd:
  "token_inv st \<Longrightarrow> (LockId vw \<noteq> [] \<longleftrightarrow> Mux vw) \<Longrightarrow> token_inv (st(k \<mapsto> vw))"
  by (simp add: token_inv_def)

lemma token_inv_empty: "token_inv Map.empty"
  by (simp add: token_inv_def)

lemma token_inv_valuesPut: "token_inv st \<Longrightarrow> token_inv (snd (valuesPut src key r st))"
  by (auto simp: valuesPut_def valueWr_Lock_def readBody_def new_valueWr_def Let_def
        genLockId_not_empty token_inv_def
      split: option.splits sum.splits)

lemma token_inv_valuesPost:
  assumes "token_inv st"
  shows "token_inv (snd (valuesPost parts key r st))"
proof (cases "st key")
  case None
  with assms show ?thesis by (simp add: valuesPost_def Let_def)
next
  case (Some vw)
  with assms have vw: "LockId vw \<noteq> [] \<longleftrightarrow> Mux vw" by (simp add: token_inv_def)
  have a: "token_inv (st(key \<mapsto> vw\<lparr>Value := c\<rparr>))" for c
    using assms vw by (simp add: token_inv_upd)
  have b: "token_inv (st(key \<mapsto> vw\<lparr>LockId := [], Mux := False\<rparr>))"
    using assms by (simp add: token_inv_upd)
  have c: "token_inv (st(key \<mapsto> vw\<lparr>Value := c, LockId := [], Mux := False\<rparr>))" for c
    using assms by (simp add: token_inv_upd)
  have d: "token_inv (st(key \<mapsto> vw\<lparr>LockId := []\<rparr>))" if "\<not> Mux vw"
    using assms that by (simp add: token_inv_upd)
  have e: "token_inv (st(key \<mapsto> vw\<lparr>Value := c, LockId := []\<rparr>))" if "\<not> Mux vw" for c
    using assms that by (simp add: token_inv_upd)
  have f: "token_inv (st(key \<mapsto> vw))"
    using assms vw by (simp add: token_inv_upd)
  show ?thesis
    using Some assms a b c d e f
    by (simp add: valuesPost_def valueWr_Unlock_def readBody_def Let_def
        split: sum.splits)
qed

lemma token_inv_valuesHandler: "token_inv st \<Longrightarrow> token_inv (snd (valuesHandler src r st))"
  by (simp add: valuesHandler_def Let_def token_inv_valuesPut token_inv_valuesPost
      split: option.splits)

lemma token_inv_reservationsHandler:
  "token_inv st \<Longrightarrow> token_inv (snd (reservationsHandler src r st))"
  by (auto simp: reservationsHandler_def valueWr_Lock_def Let_def genLockId_not_empty
        token_inv_def
      split: option.splits)

section \<open>Concurrent workers\<close>

lemmas step_defs = step_def set_pc_def storeMux_Lock_def storeMux_Unlock_def beforeGuard_def
  guarded_step_def locked_step_def

lemma length_workers_set_pc [simp]: "length (workers (set_pc i p s)) = length (workers s)"
  by (simp add: set_pc_def)

lemma storeMux_set_pc [simp]: "storeMux (set_pc i p s) = storeMux s"
  by (simp add: set_pc_def)

lemma crashed_set_pc [simp]: "crashed (set_pc i p s) = crashed s"
  by (simp add: set_pc_def)

lemma store_set_pc [simp]: "store (set_pc i p s) = store s"
  by (simp add: set_pc_def)

lemma pc_set_pc:
  "j < length (workers s) \<Longrightarrow>
   w_pc (workers (set_pc i p s) ! j) = (if j = i then p else w_pc (workers s ! j))"
  by (simp add: set_pc_def nth_list_update)

lemma workers_storeMux_Unlock [simp]: "workers (storeMux_Unlock s) = workers s"
  by (simp add: storeMux_Unlock_def)

lemma storeMux_storeMux_Unlock [simp]: "storeMux (storeMux_Unlock s) = None"
  by (simp add: storeMux_Unlock_def)

lemma store_storeMux_Unlock [simp]: "store (storeMux_Unlock s) = store s"
  by (simp add: storeMux_Unlock_def)

lemma step_length [simp]: "length (workers (step i s)) = length (workers s)"
  by (simp add: step_def guarded_step_def locked_step_def storeMux_Lock_def Let_def
      split: pc.splits option.splits handler.splits prod.splits)

lemma step_other_pc:
  "j \<noteq> i \<Longrightarrow> j < length (workers s) \<Longrightarrow> w_pc (workers (step i s) ! j) = w_pc (workers s ! j)"
  by (simp add: step_def guarded_step_def locked_step_def storeMux_Lock_def Let_def pc_set_pc
      split: pc.splits option.splits handler.splits prod.splits)

lemma length_workers_run [simp]: "length (workers (run sched s)) = length (workers s)"
  by (induction sched arbitrary: s) simp_all

lemma length_workers_init [simp]: "length (workers (init reqs)) = length reqs"
  by (simp add: init_def)

subsection \<open>Entries are never removed\<close>

lemma valuesPost_keeps: "st k \<noteq> None \<Longrightarrow> snd (valuesPost parts key r st) k \<noteq> None"
  by (simp add: valuesPost_def Let_def split: option.splits prod.splits sum.splits)

lemma guarded_step_keeps: "store s k \<noteq> None \<Longrightarrow> store (guarded_step i w s) k \<noteq> None"
proof -
  assume a: "store s k \<noteq> None"
  obtain out st1 where p: "valuesPost (strings_Split (Path (w_req w)) (CHR ''/''))
      (strings_Split (Path (w_req w)) (CHR ''/'') ! 2) (w_req w) (store s) = (out, st1)"
    by (cases "valuesPost (strings_Split (Path (w_req w)) (CHR ''/''))
      (strings_Split (Path (w_req w)) (CHR ''/'') ! 2) (w_req w) (store s)") auto
  from a valuesPost_keeps [where st = "store s" and k = k
      and parts = "strings_Split (Path (w_req w)) (CHR ''/'')"
      and key = "strings_Split (Path (w_req w)) (CHR ''/'') ! 2" and r = "w_req w"] p
  have "st1 k \<noteq> None" by simp
  with a p show ?thesis
    by (simp add: guarded_step_def Let_def split: handler.splits option.splits)
qed

lemma step_keeps:
  assumes "store s k \<noteq> None"
  shows "store (step i s) k \<noteq> None"
proof (cases "crashed s \<or> length (workers s) \<le> i")
  case True
  with assms show ?thesis by (simp add: step_def)
next
  case False
  show ?thesis
  proof (cases "w_pc (workers s ! i)")
    case Guarded
    with False guarded_step_keeps [OF assms, of i "workers s ! i"] show ?thesis
      by (simp add: step_def Let_def)
  next
    case (Locked k')
    with False assms show ?thesis
      by (simp add: step_def locked_step_def Let_def
          split: option.splits handler.splits prod.splits)
  qed (use False assms in \<open>simp_all add: step_def storeMux_Lock_def Let_def
          split: option.splits\<close>)
qed

lemma guarded_step_entry:
  assumes "i < length (workers s)" and "w_pc (workers s ! i) = Guarded"
    and "pc_key (w_pc (workers (guarded_step i w s) ! i)) = Some k"
  shows "store (guarded_step i w s) k \<noteq> None"
proof -
  obtain out st1 where p: "valuesPost (strings_Split (Path (w_req w)) (CHR ''/''))
      (strings_Split (Path (w_req w)) (CHR ''/'') ! 2) (w_req w) (store s) = (out, st1)"
    by (cases "valuesPost (strings_Split (Path (w_req w)) (CHR ''/''))
      (strings_Split (Path (w_req w)) (CHR ''/'') ! 2) (w_req w) (store s)") auto
  from assms p show ?thesis
    by (auto simp: guarded_step_def Let_def pc_set_pc
        split: handler.splits option.splits if_splits)
qed

lemma step_entry:
  assumes "i < length (workers s)"
    and "\<forall>k. pc_key (w_pc (workers s ! i)) = Some k \<longrightarrow> store s k \<noteq> None"
    and "pc_key (w_pc (workers (step i s) ! i)) = Some k"
  shows "store (step i s) k \<noteq> None"
proof (cases "crashed s")
  case True
  with assms show ?thesis by (simp add: step_def)
next
  case False
  note nc = False
  show ?thesis
  proof (cases "w_pc (workers s ! i)")
    case Guarded
    with assms nc guarded_step_entry [OF assms(1) Guarded, of "workers s ! i" k]
    show ?thesis by (simp add: step_def Let_def)
  next
    case Entry
    with assms nc show ?thesis
      by (auto simp: step_def storeMux_Lock_def Let_def pc_set_pc split: option.splits if_splits)
  next
    case (Locked k')
    with assms nc show ?thesis
      by (auto simp: step_def locked_step_def Let_def pc_set_pc
          split: option.splits handler.splits prod.splits)
  qed (use assms nc in \<open>auto simp: step_def storeMux_Lock_def Let_def pc_set_pc
          split: option.splits if_splits\<close>)
qed

lemma entry_inv_step: "entry_inv s \<Longrightarrow> entry_inv (step i s)"
  unfolding entry_inv_def
proof (intro allI impI)
  fix j k
  assume inv: "\<forall>i<length (workers s). \<forall>k. pc_key (w_pc (workers s ! i)) = Some k \<longrightarrow> store s k \<noteq> None"
    and j: "j < length (workers (step i s))"
    and pk: "pc_key (w_pc (workers (step i s) ! j)) = Some k"
  from j have j': "j < length (workers s)" by simp
  show "store (step i s) k \<noteq> None"
  proof (cases "j = i")
    case True
    with inv j' pk step_entry [of i s k] show ?thesis by simp
  next
    case False
    then have "w_pc (workers (step i s) ! j) = w_pc (workers s ! j)"
      using j' by (rule step_other_pc)
    with pk inv j' have "store s k \<noteq> None" by simp
    then show ?thesis by (rule step_keeps)
  qed
qed

lemma entry_inv_init: "entry_inv (init reqs)"
  by (simp add: entry_inv_def init_def split: prod.splits)

lemma entry_inv_run: "entry_inv s \<Longrightarrow> entry_inv (run sched s)"
  by (induction sched arbitrary: s) (simp_all add: entry_inv_step)

text \<open>
  So the branches of the model for an entry that is missing while a worker is in or
  after \<^verbatim>\<open>Lock\<close> are never taken.
\<close>

lemma entry_of_worker_exists:
  assumes "i < length reqs" and "pc_key (w_pc (workers (run sched (init reqs)) ! i)) = Some k"
  shows "store (run sched (init reqs)) k \<noteq> None"
  using entry_inv_run [OF entry_inv_init, of sched reqs] assms
  by (simp add: entry_inv_def)

subsection \<open>Who holds the store mutex\<close>

lemma guarded_step_guard:
  assumes "i < length (workers s)" and "w_pc (workers s ! i) = Guarded" and "storeMux s = Some i"
  shows "(holds_guard (w_pc (workers (guarded_step i w s) ! i))
            \<longleftrightarrow> storeMux (guarded_step i w s) = Some i)
         \<and> (storeMux (guarded_step i w s) = Some i \<or> storeMux (guarded_step i w s) = None)"
proof (cases "w_handler w")
  case ReservationsHandler
  with assms show ?thesis
    by (simp add: guarded_step_def Let_def pc_set_pc split: option.splits)
next
  case ValuesHandler
  obtain out st1 where p: "valuesPost (strings_Split (Path (w_req w)) (CHR ''/''))
      (strings_Split (Path (w_req w)) (CHR ''/'') ! 2) (w_req w) (store s) = (out, st1)"
    by (cases "valuesPost (strings_Split (Path (w_req w)) (CHR ''/''))
      (strings_Split (Path (w_req w)) (CHR ''/'') ! 2) (w_req w) (store s)") auto
  from ValuesHandler assms p show ?thesis
    by (simp add: guarded_step_def Let_def pc_set_pc)
qed

lemma locked_step_guard:
  assumes "i < length (workers s)"
  shows "\<not> holds_guard (w_pc (workers (locked_step i w k s) ! i))
         \<and> storeMux (locked_step i w k s) = None"
  using assms
  by (simp add: locked_step_def Let_def pc_set_pc split: option.splits handler.splits prod.splits)

text \<open>
  A step of worker \<open>i\<close> keeps "\<open>i\<close> is at a program counter that holds the store mutex
  exactly when the store mutex is \<open>i\<close>'s", and it changes the store mutex only by
  taking it when it is free or by releasing it when it is \<open>i\<close>'s.
\<close>

lemma step_guard:
  assumes "i < length (workers s)"
    and "holds_guard (w_pc (workers s ! i)) \<longleftrightarrow> storeMux s = Some i"
  shows "(holds_guard (w_pc (workers (step i s) ! i)) \<longleftrightarrow> storeMux (step i s) = Some i)
         \<and> (storeMux (step i s) = storeMux s
            \<or> storeMux s = None \<and> storeMux (step i s) = Some i
            \<or> storeMux s = Some i \<and> storeMux (step i s) = None)"
proof (cases "crashed s")
  case True
  with assms show ?thesis by (simp add: step_def)
next
  case False
  note nc = False
  show ?thesis
  proof (cases "w_pc (workers s ! i)")
    case Entry
    with assms nc show ?thesis
      by (cases "storeMux s")
         (simp_all add: step_def storeMux_Lock_def Let_def pc_set_pc split: option.splits)
  next
    case Guarded
    with assms have g: "storeMux s = Some i" by simp
    from guarded_step_guard [OF assms(1) Guarded g, of "workers s ! i"] Guarded assms(1) nc g
    show ?thesis by (auto simp: step_def Let_def)
  next
    case (Lock_Unlock k)
    with assms nc show ?thesis by (simp add: step_def Let_def pc_set_pc)
  next
    case (Lock_Wait k)
    with assms nc show ?thesis
      by (simp add: step_def Let_def pc_set_pc split: option.splits)
  next
    case (Lock_Gen k)
    with assms nc show ?thesis
      by (simp add: step_def Let_def pc_set_pc split: option.splits)
  next
    case (Lock_Return k)
    with assms nc show ?thesis
      by (cases "storeMux s")
         (simp_all add: step_def storeMux_Lock_def Let_def pc_set_pc)
  next
    case (Locked k)
    with assms have g: "storeMux s = Some i" by simp
    from locked_step_guard [OF assms(1), of "workers s ! i" k] Locked assms(1) nc g
    show ?thesis by (simp add: step_def Let_def)
  next
    case (Finished out)
    with assms nc show ?thesis by (simp add: step_def Let_def)
  qed
qed

lemma guard_inv_step: "guard_inv s \<Longrightarrow> guard_inv (step i s)"
proof (cases "i < length (workers s)")
  case False
  assume "guard_inv s"
  with False show ?thesis by (simp add: step_def)
next
  case True
  assume inv: "guard_inv s"
  then have own: "holds_guard (w_pc (workers s ! i)) \<longleftrightarrow> storeMux s = Some i"
    using True by (simp add: guard_inv_def)
  note g = step_guard [OF True own]
  show ?thesis
    unfolding guard_inv_def
  proof (intro allI impI)
    fix j assume "j < length (workers (step i s))"
    then have j: "j < length (workers s)" by simp
    show "holds_guard (w_pc (workers (step i s) ! j)) \<longleftrightarrow> storeMux (step i s) = Some j"
    proof (cases "j = i")
      case True
      with g show ?thesis by simp
    next
      case False
      have old: "holds_guard (w_pc (workers s ! j)) \<longleftrightarrow> storeMux s = Some j"
        using inv j by (simp add: guard_inv_def)
      have "w_pc (workers (step i s) ! j) = w_pc (workers s ! j)"
        using False j by (rule step_other_pc)
      with old g False show ?thesis by auto
    qed
  qed
qed

lemma guard_inv_init: "guard_inv (init reqs)"
  by (simp add: guard_inv_def init_def split: prod.splits)

lemma guard_inv_run: "guard_inv s \<Longrightarrow> guard_inv (run sched s)"
  by (induction sched arbitrary: s) (simp_all add: guard_inv_step)

text \<open>A worker that holds the store mutex is never suspended: its next step is taken.\<close>

lemma guard_holder_steps:
  assumes "i < length (workers s)" and "\<not> crashed s" and "holds_guard (w_pc (workers s ! i))"
  shows "crashed (step i s) \<or> w_pc (workers (step i s) ! i) \<noteq> w_pc (workers s ! i)"
proof (cases "w_pc (workers s ! i)")
  case Guarded
  obtain out st1 where p: "valuesPost (strings_Split (Path (w_req (workers s ! i))) (CHR ''/''))
      (strings_Split (Path (w_req (workers s ! i))) (CHR ''/'') ! 2) (w_req (workers s ! i))
      (store s) = (out, st1)"
    by (cases "valuesPost (strings_Split (Path (w_req (workers s ! i))) (CHR ''/''))
      (strings_Split (Path (w_req (workers s ! i))) (CHR ''/'') ! 2) (w_req (workers s ! i))
      (store s)") auto
  from Guarded assms p show ?thesis
    by (simp add: step_def guarded_step_def Let_def pc_set_pc split: handler.splits option.splits)
next
  case (Lock_Unlock k)
  with assms show ?thesis by (simp add: step_def Let_def pc_set_pc)
next
  case (Locked k)
  with assms show ?thesis
    by (simp add: step_def locked_step_def Let_def pc_set_pc
        split: handler.splits option.splits prod.splits)
qed (use assms in simp_all)

text \<open>
  C8. In every execution, a worker that is inside \<^verbatim>\<open>valueWr.Lock\<close> after its
  \<^verbatim>\<open>storeMux.Unlock()\<close> (waiting in \<^verbatim>\<open>vw.Mux.Lock()\<close>, about to store the lock id, or
  about to run the deferred \<^verbatim>\<open>storeMux.Lock()\<close>) does not hold the store mutex: it
  released the mutex before it waits for the entry and takes it again only after
  \<^verbatim>\<open>vw.Mux.Lock()\<close> has returned. And the worker that holds the store mutex is never
  suspended (its next step is always taken), so a worker that waits for a busy key
  does not keep the store mutex from the workers of other keys.
\<close>

theorem C8_guard_not_held_while_waiting:
  assumes "s = run sched (init reqs)" and "i < length reqs"
  shows "(w_pc (workers s ! i) = Lock_Wait k \<or> w_pc (workers s ! i) = Lock_Gen k
            \<or> w_pc (workers s ! i) = Lock_Return k \<longrightarrow> storeMux s \<noteq> Some i)
         \<and> (storeMux s = Some i \<and> \<not> crashed s \<longrightarrow> step i s \<noteq> s)"
proof -
  have inv: "guard_inv s"
    using assms(1) guard_inv_init guard_inv_run by simp
  have i: "i < length (workers s)"
    using assms by simp
  from inv i have own: "holds_guard (w_pc (workers s ! i)) \<longleftrightarrow> storeMux s = Some i"
    by (simp add: guard_inv_def)
  have "step i s \<noteq> s" if "storeMux s = Some i" "\<not> crashed s"
  proof -
    from that own have "holds_guard (w_pc (workers s ! i))" by simp
    from guard_holder_steps [OF i that(2) this] that(2) show ?thesis by auto
  qed
  with own show ?thesis by auto
qed

lemmas eval_defs =
  step_defs init_def valuesPost_def valueWr_Unlock_def readBody_def SendJSONResp_def
  new_valueWr_def url_Values_Get_def checkKey_def Let_def

text \<open>
  The theorem at two requests \<^verbatim>\<open>PUT /values/foo\<close>: the first worker runs to its end and
  keeps the key locked; the second then waits in \<^verbatim>\<open>vw.Mux.Lock()\<close>, no step of it is
  taken, and the store mutex is free.
\<close>

theorem C8_guard_not_held_while_waiting_witness:
  "map w_pc (workers (run [0, 0, 0, 0, 0, 0, 0, 1, 1, 1, 1]
       (init [(ValuesHandler,
               \<lparr>Method = ''PUT'', Path = ''/values/foo'', Query = [], Body = Inr ''x''\<rparr>, []),
              (ValuesHandler,
               \<lparr>Method = ''PUT'', Path = ''/values/foo'', Query = [], Body = Inr ''y''\<rparr>, [])])))
     = [Finished (Done (JSON [(''lock_id'', ''00000000000000000000000000000000'')])),
        Lock_Wait ''foo'']
   \<and> storeMux (run [0, 0, 0, 0, 0, 0, 0, 1, 1, 1, 1]
       (init [(ValuesHandler,
               \<lparr>Method = ''PUT'', Path = ''/values/foo'', Query = [], Body = Inr ''x''\<rparr>, []),
              (ValuesHandler,
               \<lparr>Method = ''PUT'', Path = ''/values/foo'', Query = [], Body = Inr ''y''\<rparr>, [])]))
     \<noteq> Some 1"
proof -
  let ?reqs = "[(ValuesHandler,
               \<lparr>Method = ''PUT'', Path = ''/values/foo'', Query = [], Body = Inr ''x''\<rparr>, []),
              (ValuesHandler,
               \<lparr>Method = ''PUT'', Path = ''/values/foo'', Query = [], Body = Inr ''y''\<rparr>, [])]"
  let ?s = "run [0, 0, 0, 0, 0, 0, 0, 1, 1, 1, 1] (init ?reqs)"
  have pcs: "map w_pc (workers ?s)
     = [Finished (Done (JSON [(''lock_id'', ''00000000000000000000000000000000'')])),
        Lock_Wait ''foo'']"
    by (simp add: eval_defs genLockId_no_entropy)
  then have w: "w_pc (workers ?s ! 1) = Lock_Wait ''foo''"
    by (simp add: list_eq_iff_nth_eq)
  have i: "1 < length ?reqs" by simp
  from C8_guard_not_held_while_waiting [OF refl i, of "[0, 0, 0, 0, 0, 0, 0, 1, 1, 1, 1]" "''foo''"] w
  have "storeMux ?s \<noteq> Some 1" by blast
  with pcs show ?thesis by blast
qed

subsection \<open>Lock ids and mutexes under interleaving\<close>

lemma genLockId_example:
  "genLockId [0x01, 0x02, 0x03, 0x04, 0x05, 0x06, 0x07, 0x08,
              0x09, 0x0a, 0x0b, 0x0c, 0x0d, 0x0e, 0x0f, 0x10]
     = ''0102030405060708090a0b0c0d0e0f10''"
  by (simp add: genLockId_def rand_Read_def LockIdLength_def hextable_def)

text \<open>
  C5, the claim at the execution where the code departs from it. Worker 0 serves
  \<^verbatim>\<open>PUT /values/foo\<close>: it creates the entry, releases the store mutex and locks the
  mutex of the entry; its next statement is \<^verbatim>\<open>vw.LockId = genLockId()\<close>, so the mutex
  is locked and the lock id still empty. Worker 1 now serves
  \<^verbatim>\<open>POST /values/foo/?release=true\<close>: the empty lock id it presents equals the lock id
  of the entry, so it writes the value and calls \<^verbatim>\<open>Unlock\<close>, which unlocks the mutex
  worker 0 locked. Worker 0 then stores its lock id, takes the store mutex, writes its
  value and answers 200 with the lock id. Both workers have finished, the store mutex is
  free, and the entry has a lock id while its mutex is not locked.
\<close>

theorem C5_lock_id_without_mutex:
  "map w_pc (workers (run [0, 0, 0, 0] (init race_requests))) = [Lock_Gen ''foo'', Entry]
   \<and> store (run [0, 0, 0, 0] (init race_requests)) ''foo''
       = Some \<lparr>Value = [], LockId = [], Mux = True\<rparr>
   \<and> map w_pc (workers (run [0, 0, 0, 0, 1, 1] (init race_requests)))
       = [Lock_Gen ''foo'', Finished (Done NoContent)]
   \<and> store (run [0, 0, 0, 0, 1, 1] (init race_requests)) ''foo''
       = Some \<lparr>Value = ''y'', LockId = [], Mux = False\<rparr>
   \<and> map w_pc (workers (run [0, 0, 0, 0, 1, 1, 0, 0, 0] (init race_requests)))
       = [Finished (Done (JSON [(''lock_id'', ''0102030405060708090a0b0c0d0e0f10'')])),
          Finished (Done NoContent)]
   \<and> store (run [0, 0, 0, 0, 1, 1, 0, 0, 0] (init race_requests)) ''foo''
       = Some \<lparr>Value = ''x'', LockId = ''0102030405060708090a0b0c0d0e0f10'', Mux = False\<rparr>
   \<and> storeMux (run [0, 0, 0, 0, 1, 1, 0, 0, 0] (init race_requests)) = None
   \<and> \<not> crashed (run [0, 0, 0, 0, 1, 1, 0, 0, 0] (init race_requests))"
  by (simp add: race_requests_def eval_defs genLockId_example)

subsection \<open>A worker that runs alone\<close>

lemma run_alone_reservations:
  "agrees (run [0, 0, 0, 0, 0, 0, 0] (alone ReservationsHandler src r st))
     (reservationsHandler src r st)"
proof (cases "beforeGuard ReservationsHandler r")
  case (Some out)
  then show ?thesis
    by (auto simp: agrees_def alone_def beforeGuard_def reservationsHandler_def step_def set_pc_def
        split: if_splits)
next
  case None
  then have m: "Method r = ''POST''" and l: "\<not> length (Path r) < length PathReservations"
    by (auto simp: beforeGuard_def split: if_splits)
  let ?key = "drop (length PathReservations) (Path r)"
  show ?thesis
  proof (cases "st ?key")
    case None
    with m l show ?thesis
      by (simp add: agrees_def alone_def reservationsHandler_def step_defs Let_def)
  next
    case (Some vw)
    with m l show ?thesis
      by (cases "Mux vw")
         (simp_all add: agrees_def alone_def reservationsHandler_def step_defs Let_def
            valueWr_Lock_def)
  qed
qed

lemma run_alone_values:
  "agrees (run [0, 0, 0, 0, 0, 0, 0] (alone ValuesHandler src r st)) (valuesHandler src r st)"
proof (cases "beforeGuard ValuesHandler r")
  case (Some out)
  then show ?thesis
    by (auto simp: agrees_def alone_def beforeGuard_def valuesHandler_def step_def set_pc_def
          Let_def
        split: if_splits option.splits)
next
  case None
  let ?parts = "strings_Split (Path r) (CHR ''/'')"
  let ?key = "?parts ! 2"
  from None have l: "\<not> length ?parts < 3" and k: "checkKey ?key = None"
    by (auto simp: beforeGuard_def Let_def split: if_splits option.splits)
  consider (post) "Method r = ''POST''" | (put) "Method r = ''PUT''"
    | (other) "Method r \<noteq> ''POST''" "Method r \<noteq> ''PUT''" by blast
  then show ?thesis
  proof cases
    case post
    obtain out st1 where p: "valuesPost ?parts ?key r st = (out, st1)"
      by (cases "valuesPost ?parts ?key r st") auto
    have nb: "out \<noteq> Blocked b" for b
      using p
      by (auto simp: valuesPost_def Let_def split: if_splits option.splits prod.splits sum.splits)
    show ?thesis
    proof (cases out)
      case (Blocked b)
      with nb [of b] show ?thesis by simp
    qed (use post l k p in
          \<open>simp_all add: agrees_def alone_def valuesHandler_def step_defs Let_def\<close>)
  next
    case put
    show ?thesis
    proof (cases "st ?key")
      case None
      with put l k show ?thesis
        by (cases "Body r")
           (simp_all add: agrees_def alone_def valuesHandler_def valuesPut_def step_defs Let_def
              valueWr_Lock_def new_valueWr_def readBody_def)
    next
      case (Some vw)
      with put l k show ?thesis
        by (cases "Mux vw"; cases "Body r")
           (simp_all add: agrees_def alone_def valuesHandler_def valuesPut_def step_defs Let_def
              valueWr_Lock_def readBody_def)
    qed
  next
    case other
    with l k show ?thesis
      by (simp add: agrees_def alone_def valuesHandler_def step_defs Let_def)
  qed
qed

text \<open>
  A worker that no other worker interrupts does what the handler of the section "one
  request at a time" says: after its seven steps the store is the handler's store, and
  the worker has finished with the handler's outcome, or waits in \<^verbatim>\<open>vw.Mux.Lock()\<close>
  where the handler is suspended, or the process has crashed where the handler is fatal.
\<close>

lemma run_alone:
  "agrees (run [0, 0, 0, 0, 0, 0, 0] (alone h src r st)) (serve h src r st)"
  by (cases h) (simp_all add: serve_def run_alone_reservations run_alone_values del: run.simps)

end
